theory Spec2Isabelle
  imports Main "HOL-Library.Char_ord" "HOL-Library.List_Lexorder" "HOL-Library.AList"
begin

section \<open>The addon pull pipeline (src/addons/pull.js)\<close>

text \<open>
  A shallow embedding of the pure parts of \<^verbatim>\<open>pull.js\<close>: the tree walker, the text
  rewriters, the manifest transformer, the locale partitioner and the entry-table
  generator. JavaScript strings are modelled as \<^typ>\<open>string\<close>, every \<^verbatim>\<open>throw\<close> as a
  value of \<open>js_error + 'a\<close>, and the file system as explicit data handed to the functions.
\<close>

subsection \<open>JavaScript values\<close>

datatype js_error = TypeError | Error string | ENOENT | ENOTDIR | SyntaxError

text \<open>
  The values \<^verbatim>\<open>JSON.parse\<close> produces. An object is the association list of its own
  properties in the order in which the object lists them; \<^verbatim>\<open>undefined\<close> is \<open>None\<close> of \<open>json option\<close>. Numbers are
  restricted to integers; no function of the pipeline computes with them. The special
  property name \<^verbatim>\<open>__proto__\<close> and inherited properties are outside the model.
\<close>

datatype json =
    JNull
  | JBool bool
  | JNum int
  | JStr string
  | JArr "json list"
  | JObj "(string \<times> json) list"

text \<open>Truthiness of a value, as \<^verbatim>\<open>if (v)\<close>, \<^verbatim>\<open>v ? a : b\<close> and \<^verbatim>\<open>v && w\<close> test it.\<close>

fun truthy :: "json option \<Rightarrow> bool" where
  "truthy None = False"
| "truthy (Some JNull) = False"
| "truthy (Some (JBool b)) = b"
| "truthy (Some (JNum n)) = (n \<noteq> 0)"
| "truthy (Some (JStr s)) = (s \<noteq> [])"
| "truthy (Some (JArr xs)) = True"
| "truthy (Some (JObj kvs)) = True"

text \<open>
  Reading a property \<^verbatim>\<open>v.k\<close> for the property names the pipeline uses (none of them is
  a built-in property of a string, number, boolean or array): \<^verbatim>\<open>null.k\<close> throws, an
  object yields its own property, every other value yields \<^verbatim>\<open>undefined\<close>.
\<close>

fun get_prop :: "json \<Rightarrow> string \<Rightarrow> js_error + json option" where
  "get_prop JNull k = Inl TypeError"
| "get_prop (JObj kvs) k = Inr (map_of kvs k)"
| "get_prop v k = Inr None"

text \<open>\<^verbatim>\<open>delete v.k\<close>: throws on \<^verbatim>\<open>null\<close>, removes an own property of an object, and does
  nothing on any other value.\<close>

fun js_delete :: "string \<Rightarrow> json \<Rightarrow> js_error + json" where
  "js_delete k JNull = Inl TypeError"
| "js_delete k (JObj kvs) = Inr (JObj (AList.delete k kvs))"
| "js_delete k v = Inr v"

subsection \<open>Strings\<close>

text \<open>\<^verbatim>\<open>s.startsWith(t)\<close>, \<^verbatim>\<open>s.includes(t)\<close> and \<^verbatim>\<open>s.endsWith(t)\<close>.\<close>

fun startsWith :: "string \<Rightarrow> string \<Rightarrow> bool" where
  "startsWith s [] = True"
| "startsWith [] (y # ys) = False"
| "startsWith (x # xs) (y # ys) = (x = y \<and> startsWith xs ys)"

fun includes_str :: "string \<Rightarrow> string \<Rightarrow> bool" where
  "includes_str [] t = (t = [])"
| "includes_str (x # xs) t = (startsWith (x # xs) t \<or> includes_str xs t)"


text \<open>Decimal digits of a number, as a template literal prints a counter or an index.\<close>

definition digit_char :: "nat \<Rightarrow> char" where
  "digit_char d = ''0123456789'' ! d"

fun decimal :: "nat \<Rightarrow> string" where
  "decimal n = (if n < 10 then [digit_char n] else decimal (n div 10) @ [digit_char (n mod 10)])"

declare decimal.simps [simp del]

text \<open>An integer: the sign, then the digits.\<close>

definition decimal_int :: "int \<Rightarrow> string" where
  "decimal_int i = (if 0 \<le> i then decimal (nat i) else CHR ''-'' # decimal (nat (- i)))"

text \<open>
  \<^verbatim>\<open>JSON.stringify\<close> of a string: the quoted string, with the quote, the backslash and
  the control characters escaped.
\<close>

definition hex_digit :: "nat \<Rightarrow> char" where
  "hex_digit n = ''0123456789abcdef'' ! n"

definition escape_char :: "char \<Rightarrow> string" where
  "escape_char c =
     (if c = CHR 0x22 then [CHR 0x5C, CHR 0x22]
      else if c = CHR 0x5C then [CHR 0x5C, CHR 0x5C]
      else if c = CHR 0x08 then [CHR 0x5C, CHR ''b'']
      else if c = CHR 0x0C then [CHR 0x5C, CHR ''f'']
      else if c = CHR 0x0A then [CHR 0x5C, CHR ''n'']
      else if c = CHR 0x0D then [CHR 0x5C, CHR ''r'']
      else if c = CHR 0x09 then [CHR 0x5C, CHR ''t'']
      else if (of_char c :: nat) < 32
        then [CHR 0x5C, CHR ''u'', CHR ''0'', CHR ''0'',
              hex_digit (of_char c div 16), hex_digit (of_char c mod 16)]
      else [c])"

definition quote :: "string \<Rightarrow> string" where
  "quote s = [CHR 0x22] @ concat (map escape_char s) @ [CHR 0x22]"

text \<open>
  The string a JavaScript string literal denotes, for the literals \<^verbatim>\<open>JSON.stringify\<close>
  writes: \<open>unescape\<close> reads the text between the quotes. A \<^verbatim>\<open>\u\<close> escape above
  code 255 is outside the 8-bit characters of the model.
\<close>

definition hex_value :: "char \<Rightarrow> nat option" where
  "hex_value c =
     (if c \<in> set ''0123456789'' then Some (of_char c - 48)
      else if c \<in> set ''abcdef'' then Some (of_char c - 87)
      else if c \<in> set ''ABCDEF'' then Some (of_char c - 55)
      else None)"

definition simple_escape :: "char \<Rightarrow> char option" where
  "simple_escape e =
     (if e = CHR 0x22 then Some (CHR 0x22)
      else if e = CHR 0x5C then Some (CHR 0x5C)
      else if e = CHR ''/'' then Some (CHR ''/'')
      else if e = CHR ''b'' then Some (CHR 0x08)
      else if e = CHR ''f'' then Some (CHR 0x0C)
      else if e = CHR ''n'' then Some (CHR 0x0A)
      else if e = CHR ''r'' then Some (CHR 0x0D)
      else if e = CHR ''t'' then Some (CHR 0x09)
      else None)"

fun unescape :: "string \<Rightarrow> string option" where
  "unescape [] = Some []"
| "unescape (c # cs) =
     (if c = CHR 0x22 then None
      else if c \<noteq> CHR 0x5C then map_option ((#) c) (unescape cs)
      else (case cs of
              [] \<Rightarrow> None
            | e # r \<Rightarrow>
                if e = CHR ''u'' then
                  (case r of
                     a # b # h # l # r' \<Rightarrow>
                       (case (hex_value a, hex_value b, hex_value h, hex_value l) of
                          (Some x, Some y, Some v, Some w) \<Rightarrow>
                            if x = 0 \<and> y = 0
                            then map_option ((#) (char_of (v * 16 + w))) (unescape r')
                            else None
                        | _ \<Rightarrow> None)
                   | _ \<Rightarrow> None)
                else (case simple_escape e of
                        None \<Rightarrow> None
                      | Some d \<Rightarrow> map_option ((#) d) (unescape r))))"

definition literal_value :: "string \<Rightarrow> string option" where
  "literal_value s =
     (case s of
        [] \<Rightarrow> None
      | q # body \<Rightarrow>
          if q = CHR 0x22 \<and> body \<noteq> [] \<and> last body = CHR 0x22 then unescape (butlast body)
          else None)"

text \<open>\<^verbatim>\<open>JSON.stringify(v)\<close> inside a template literal, where \<^verbatim>\<open>undefined\<close> prints as such.\<close>

fun stringify_str :: "string option \<Rightarrow> string" where
  "stringify_str None = ''undefined''"
| "stringify_str (Some s) = quote s"

fun join_with :: "string \<Rightarrow> string list \<Rightarrow> string" where
  "join_with sep [] = []"
| "join_with sep [x] = x"
| "join_with sep (x # xs) = x @ sep @ join_with sep xs"

text \<open>\<^verbatim>\<open>JSON.stringify(v, null, 2)\<close> at a current indentation of \<open>ind\<close> spaces.\<close>

fun stringify_pretty :: "nat \<Rightarrow> json \<Rightarrow> string" where
  "stringify_pretty ind JNull = ''null''"
| "stringify_pretty ind (JBool b) = (if b then ''true'' else ''false'')"
| "stringify_pretty ind (JNum n) = decimal_int n"
| "stringify_pretty ind (JStr s) = quote s"
| "stringify_pretty ind (JArr xs) =
     (if xs = [] then ''[]''
      else ''['' @ [CHR 0x0A] @ replicate (ind + 2) CHR '' '' @
           join_with ('','' @ [CHR 0x0A] @ replicate (ind + 2) CHR '' '')
             (map (stringify_pretty (ind + 2)) xs) @
           [CHR 0x0A] @ replicate ind CHR '' '' @ '']'')"
| "stringify_pretty ind (JObj kvs) =
     (if kvs = [] then ''{}''
      else ''{'' @ [CHR 0x0A] @ replicate (ind + 2) CHR '' '' @
           join_with ('','' @ [CHR 0x0A] @ replicate (ind + 2) CHR '' '')
             (map (\<lambda>(k, v). quote k @ '': '' @ stringify_pretty (ind + 2) v) kvs) @
           [CHR 0x0A] @ replicate ind CHR '' '' @ ''}'')"

subsection \<open>Tree walker\<close>

text \<open>
  A directory tree as \<^verbatim>\<open>readdirSync\<close> and \<^verbatim>\<open>statSync\<close> show it: a file with its contents,
  or a directory with its named children in listing order.
\<close>

datatype fs_node = File string | Dir "(string \<times> fs_node) list"

fun isDirectory :: "fs_node \<Rightarrow> bool" where
  "isDirectory (Dir children) = True"
| "isDirectory (File contents) = False"

text \<open>\<^verbatim>\<open>path.join\<close> of a file name and a relative path (POSIX separator; the names
  \<^verbatim>\<open>readdirSync\<close> returns need no normalisation).\<close>

definition pathUtil_join :: "string \<Rightarrow> string \<Rightarrow> string" where
  "pathUtil_join a b = a @ ''/'' @ b"

text \<open>\<^verbatim>\<open>walk(dir)\<close>; \<open>walk_loop\<close> is its \<^verbatim>\<open>for\<close> loop over \<^verbatim>\<open>children\<close>, with the list
  \<^verbatim>\<open>files\<close> built so far.\<close>

fun walk :: "fs_node \<Rightarrow> js_error + string list"
  and walk_loop :: "(string \<times> fs_node) list \<Rightarrow> string list \<Rightarrow> js_error + string list"
where
  "walk (File contents) = Inl ENOTDIR"
| "walk (Dir children) = walk_loop children []"
| "walk_loop [] files = Inr files"
| "walk_loop ((child, node) # rest) files =
     (if isDirectory node
      then (case walk node of
              Inl e \<Rightarrow> Inl e
            | Inr childChildren \<Rightarrow>
                walk_loop rest (files @ map (pathUtil_join child) childChildren))
      else walk_loop rest (files @ [child]))"

text \<open>
  The specification's side: \<open>file_at t cs\<close> holds when following the names \<open>cs\<close> from
  \<open>t\<close> ends at a file, and \<open>rel_path cs\<close> is the relative path with these components.
\<close>

inductive file_at :: "fs_node \<Rightarrow> string list \<Rightarrow> bool" where
  here: "file_at (File contents) []"
| below: "(c, n) \<in> set children \<Longrightarrow> file_at n cs \<Longrightarrow> file_at (Dir children) (c # cs)"

fun rel_path :: "string list \<Rightarrow> string" where
  "rel_path [] = []"
| "rel_path [c] = c"
| "rel_path (c # cs) = c @ ''/'' @ rel_path cs"

text \<open>A well-formed tree: the names in a directory are distinct and contain no separator.\<close>

fun wf_tree :: "fs_node \<Rightarrow> bool" where
  "wf_tree (File contents) = True"
| "wf_tree (Dir children) =
     (distinct (map fst children) \<and>
      list_all (\<lambda>(c, n). CHR ''/'' \<notin> set c \<and> wf_tree n) children)"

text \<open>The list \<open>walk\<close> returns, in closed form.\<close>

fun paths :: "fs_node \<Rightarrow> string list" where
  "paths (File contents) = []"
| "paths (Dir children) =
     concat (map (\<lambda>(c, n). if isDirectory n then map (pathUtil_join c) (paths n) else [c]) children)"

definition first_comp :: "string \<Rightarrow> string" where
  "first_comp p = takeWhile (\<lambda>x. x \<noteq> CHR ''/'') p"

subsection \<open>Polyfill injection\<close>

definition polyfill_import :: string where
  \<open>polyfill_import =
     ''import EventTarget from "../../event-target.js"; /* inserted by pull.js */\<newline>\<newline>''\<close>

definition includePolyfills :: "string \<Rightarrow> string" where
  "includePolyfills contents =
     (if includes_str contents ''EventTarget'' then polyfill_import @ contents else contents)"

subsection \<open>Asset-path rewriting\<close>







text \<open>
  The two regular expressions. A matcher looks for a match that starts at the first
  character of its input and returns the text of capture group 1 with the length of
  the whole match. Both patterns begin with
  \<^verbatim>\<open>addon\.self\.(?:dir|lib) *\+\<close>; \<open>match_base\<close> returns what follows the plus sign.
\<close>

fun strip_prefix :: "string \<Rightarrow> string \<Rightarrow> string option" where
  "strip_prefix [] s = Some s"
| "strip_prefix (p # ps) [] = None"
| "strip_prefix (p # ps) (c # cs) = (if p = c then strip_prefix ps cs else None)"













subsection \<open>Manifest transformer\<close>

definition KEEP_TAGS :: "string list" where
  "KEEP_TAGS = [''recommended'', ''theme'', ''beta'', ''danger'']"

text \<open>
  Lines 152 to 161 of \<^verbatim>\<open>generateManifestEntry\<close>: the assignment to \<^verbatim>\<open>manifest.tags\<close> and the
  \<^verbatim>\<open>push\<close>. The result is the manifest object as the caller sees it afterwards.
  \<^verbatim>\<open>manifest.tags.filter\<close> throws unless \<^verbatim>\<open>manifest.tags\<close> is an array.
\<close>

definition filter_tags :: "string list \<Rightarrow> string \<Rightarrow> json \<Rightarrow> js_error + json" where
  "filter_tags newAddons addon_id manifest =
     (case manifest of
        JObj kvs \<Rightarrow>
          (case map_of kvs ''tags'' of
             Some (JArr tags) \<Rightarrow>
               Inr (JObj (AList.update ''tags''
                      (JArr (filter (\<lambda>i. i \<in> set (map JStr KEEP_TAGS)) tags @
                             (if addon_id \<in> set newAddons then [JStr ''new''] else [])))
                      kvs))
           | _ \<Rightarrow> Inl TypeError)
      | _ \<Rightarrow> Inl TypeError)"

text \<open>\<^verbatim>\<open>clone\<close>: a value parsed from JSON survives \<^verbatim>\<open>JSON.parse(JSON.stringify(obj))\<close>
  unchanged; the copy shares nothing with the original, which the model expresses by
  returning the changed copy and leaving the original value as it is.\<close>

definition clone :: "json \<Rightarrow> json" where
  "clone obj = obj"

text \<open>The body of the two \<^verbatim>\<open>for ... of\<close> loops: delete the properties \<open>ks\<close> of every
  element, in order.\<close>

fun delete_all :: "string list \<Rightarrow> json \<Rightarrow> js_error + json" where
  "delete_all [] v = Inr v"
| "delete_all (k # ks) v = (case js_delete k v of Inl e \<Rightarrow> Inl e | Inr v' \<Rightarrow> delete_all ks v')"

fun delete_each :: "string list \<Rightarrow> json list \<Rightarrow> js_error + json list" where
  "delete_each ks [] = Inr []"
| "delete_each ks (u # us) =
     (case delete_all ks u of
        Inl e \<Rightarrow> Inl e
      | Inr u' \<Rightarrow> (case delete_each ks us of Inl e \<Rightarrow> Inl e | Inr us' \<Rightarrow> Inr (u' # us')))"

text \<open>
  \<^verbatim>\<open>if (t[field]) { for (const u of t[field]) { delete u.k; ... } }\<close>: a falsy value is
  skipped, an array is iterated, a non-empty string is iterated by characters (on which
  \<^verbatim>\<open>delete\<close> does nothing), and any other truthy value is not iterable.
\<close>

definition strip_entries :: "string \<Rightarrow> string list \<Rightarrow> (string \<times> json) list \<Rightarrow> js_error + (string \<times> json) list" where
  "strip_entries field ks kvs =
     (if \<not> truthy (map_of kvs field) then Inr kvs
      else (case map_of kvs field of
              Some (JArr us) \<Rightarrow>
                (case delete_each ks us of
                   Inl e \<Rightarrow> Inl e
                 | Inr us' \<Rightarrow> Inr (AList.update field (JArr us') kvs))
            | Some (JStr s) \<Rightarrow> Inr kvs
            | _ \<Rightarrow> Inl TypeError))"

text \<open>Lines 163 to 179: the trimmed copy.\<close>

definition trim_manifest :: "json \<Rightarrow> js_error + json" where
  "trim_manifest manifest =
     (case delete_all [''versionAdded'', ''libraries'', ''injectAsStyleElt'',
                       ''enabledByDefaultMobile'', ''permissions''] (clone manifest) of
        Inl e \<Rightarrow> Inl e
      | Inr (JObj kvs) \<Rightarrow>
          (case strip_entries ''userscripts'' [''matches'', ''runAtComplete''] kvs of
             Inl e \<Rightarrow> Inl e
           | Inr kvs' \<Rightarrow>
               (case strip_entries ''userstyles'' [''matches''] kvs' of
                  Inl e \<Rightarrow> Inl e
                | Inr kvs'' \<Rightarrow> Inr (JObj kvs'')))
      | Inr v \<Rightarrow> Inr v)"

text \<open>\<^verbatim>\<open>manifest.permissions && manifest.permissions.includes('clipboardWrite')\<close>.\<close>

definition wants_clipboard :: "json \<Rightarrow> js_error + bool" where
  "wants_clipboard manifest =
     (case get_prop manifest ''permissions'' of
        Inl e \<Rightarrow> Inl e
      | Inr p \<Rightarrow>
          if \<not> truthy p then Inr False
          else (case p of
                  Some (JArr xs) \<Rightarrow> Inr (JStr ''clipboardWrite'' \<in> set xs)
                | Some (JStr s) \<Rightarrow> Inr (includes_str s ''clipboardWrite'')
                | _ \<Rightarrow> Inl TypeError))"

text \<open>Lines 181 to 196: the generated document.\<close>

definition mobile_lines :: "json \<Rightarrow> string" where
  \<open>mobile_lines manifest =
     (case get_prop manifest ''enabledByDefaultMobile'' of
        Inr (Some (JBool b)) \<Rightarrow>
          ''import {isMobile} from "../../environment";\<newline>'' @
          ''if (isMobile) manifest.enabledByDefault = '' @ (if b then ''true'' else ''false'') @
          '';\<newline>''
      | _ \<Rightarrow> [])\<close>

definition clipboard_lines :: string where
  \<open>clipboard_lines =
     ''import {clipboardSupported} from "../../environment";\<newline>'' @
     ''if (!clipboardSupported) manifest.unsupported = true;\<newline>''\<close>

definition mediarecorder_lines :: string where
  \<open>mediarecorder_lines =
     ''import {mediaRecorderSupported} from "../../environment";\<newline>'' @
     ''if (!mediaRecorderSupported) manifest.unsupported = true;\<newline>''\<close>

definition render_manifest :: "string \<Rightarrow> json \<Rightarrow> json \<Rightarrow> js_error + string" where
  \<open>render_manifest addon_id manifest trimmedManifest =
     (case wants_clipboard manifest of
        Inl e \<Rightarrow> Inl e
      | Inr clip \<Rightarrow>
          Inr (''/* generated by pull.js */\<newline>'' @
               ''const manifest = '' @ stringify_pretty 0 trimmedManifest @ '';\<newline>'' @
               mobile_lines manifest @
               (if clip then clipboard_lines else []) @
               (if addon_id = ''mediarecorder'' then mediarecorder_lines else []) @
               ''export default manifest;\<newline>''))\<close>

text \<open>
  \<^verbatim>\<open>generateManifestEntry(id, manifest)\<close> with the list \<^verbatim>\<open>newAddons\<close> of the module
  \<^verbatim>\<open>addons.js\<close> as a parameter. Besides the returned text, the result records the
  argument object as the call leaves it and the local \<^verbatim>\<open>trimmedManifest\<close>.
\<close>

record manifest_entry =
  manifest_after :: json
  trimmedManifest :: json
  result :: string

definition generateManifestEntry :: "string list \<Rightarrow> string \<Rightarrow> json \<Rightarrow> js_error + manifest_entry" where
  "generateManifestEntry newAddons addon_id manifest =
     (case filter_tags newAddons addon_id manifest of
        Inl e \<Rightarrow> Inl e
      | Inr manifest' \<Rightarrow>
          (case trim_manifest manifest' of
             Inl e \<Rightarrow> Inl e
           | Inr trimmed \<Rightarrow>
               (case render_manifest addon_id manifest' trimmed of
                  Inl e \<Rightarrow> Inl e
                | Inr text \<Rightarrow>
                    Inr \<lparr>manifest_after = manifest', trimmedManifest = trimmed, result = text\<rparr>)))"

text \<open>Whether a value has the own property \<open>k\<close>.\<close>

fun has_key :: "json \<Rightarrow> string \<Rightarrow> bool" where
  "has_key (JObj kvs) k = (k \<in> fst ` set kvs)"
| "has_key v k = False"

subsection \<open>Locale partitioner\<close>


text \<open>The two objects \<^verbatim>\<open>settings\<close> and \<^verbatim>\<open>runtime\<close>, with their properties in the order
  in which the object lists them.\<close>

record message_groups =
  settings :: "(string \<times> json) list"
  runtime :: "(string \<times> json) list"


text \<open>
  The order of the properties of an object. A property name that is an array index (the
  decimal notation of a number below \<open>2\<^sup>3\<^sup>2 - 1\<close>, without leading zeros) is listed before
  every other name, the array indices in ascending numeric order; the other names follow
  in the order of their creation. \<^verbatim>\<open>Object.keys\<close> and \<^verbatim>\<open>JSON.stringify\<close> use this order.
\<close>

definition number_of_digits :: "string \<Rightarrow> nat" where
  "number_of_digits k = foldl (\<lambda>n c. 10 * n + (of_char c - 48)) 0 k"

definition array_index :: "string \<Rightarrow> nat option" where
  "array_index k =
     (if decimal (number_of_digits k) = k \<and> number_of_digits k < 4294967295
      then Some (number_of_digits k) else None)"









text \<open>
  The specification's side. \<open>key_ordered\<close> says that a list of property names has the
  array indices first, in ascending order. \<open>catalog\<close> is what one addon contributes:
  the messages of its file, and nothing when the file is missing or does not parse;
  \<open>all_messages\<close> collects the contributions in list order, a later addon overriding an
  earlier one on a common id.
\<close>

fun key_ordered :: "string list \<Rightarrow> bool" where
  "key_ordered [] = True"
| "key_ordered [k] = True"
| "key_ordered (k # k' # ks) =
     ((case array_index k' of
         None \<Rightarrow> True
       | Some m' \<Rightarrow> (case array_index k of None \<Rightarrow> False | Some m \<Rightarrow> m < m')) \<and>
      key_ordered (k' # ks))"



subsection \<open>Entry-table generator\<close>

text \<open>What the callback returns: \<^verbatim>\<open>{src, name, type}\<close>, where \<^verbatim>\<open>name\<close> may be missing.\<close>

record classification =
  src :: string
  name :: "string option"
  type :: string

record entries_state =
  importSection :: string
  importCount :: nat
  exportSection :: string

text \<open>The \<^verbatim>\<open>for\<close> loop of \<^verbatim>\<open>generateEntries\<close>. A callback that throws ends the loop with its
  error.\<close>

fun generateEntries_loop :: "(string \<Rightarrow> js_error + classification) \<Rightarrow> string list \<Rightarrow> entries_state \<Rightarrow> js_error + entries_state" where
  "generateEntries_loop callback [] st = Inr st"
| "generateEntries_loop callback (i # items) st =
     (case callback i of
        Inl e \<Rightarrow> Inl e
      | Inr c \<Rightarrow>
          if type c = ''lazy-import'' then
            generateEntries_loop callback items
              (st\<lparr>exportSection := exportSection st @
                 ''  '' @ quote i @ '': () => import(/* webpackChunkName: '' @
                 stringify_str (name c) @ '' */ '' @ quote (src c) @ ''),\<newline>''\<rparr>)
          else if type c = ''lazy-require'' then
            generateEntries_loop callback items
              (st\<lparr>exportSection := exportSection st @
                 ''  '' @ quote i @ '': () => require('' @ quote (src c) @ ''),\<newline>''\<rparr>)
          else if type c = ''eager-import'' then
            generateEntries_loop callback items
              (st\<lparr>importCount := importCount st + 1,
                  importSection := importSection st @
                    ''import '' @ (''_import'' @ decimal (importCount st)) @ '' from '' @
                    quote (src c) @ '';\<newline>'',
                  exportSection := exportSection st @
                    ''  '' @ quote i @ '': '' @ (''_import'' @ decimal (importCount st)) @
                    '',\<newline>''\<rparr>)
          else Inl (Error (''Unknown type: '' @ type c)))"

definition generateEntries :: "string list \<Rightarrow> (string \<Rightarrow> js_error + classification) \<Rightarrow> js_error + string" where
  "generateEntries items callback =
     (case generateEntries_loop callback items
             \<lparr>importSection = [], importCount = 0, exportSection = ''export default {\<newline>''\<rparr> of
        Inl e \<Rightarrow> Inl e
      | Inr st \<Rightarrow>
          Inr (''/* generated by pull.js */\<newline>'' @ importSection st @
               (exportSection st @ ''};\<newline>'')))"

text \<open>The four call sites.\<close>

definition generateL10nEntries :: "string list \<Rightarrow> js_error + string" where
  "generateL10nEntries locales =
     generateEntries (filter (\<lambda>i. i \<noteq> ''en'') locales)
       (\<lambda>locale. Inr \<lparr>src = ''../addons-l10n/'' @ locale @ ''.json'',
                       name = Some (''addon-l10n-'' @ locale),
                       type = ''lazy-import''\<rparr>)"

definition generateL10nSettingsEntries :: "string list \<Rightarrow> js_error + string" where
  "generateL10nSettingsEntries locales =
     generateEntries (filter (\<lambda>i. i \<noteq> ''en'') locales)
       (\<lambda>locale. Inr \<lparr>src = ''../addons-l10n-settings/'' @ locale @ ''.json'',
                       name = None,
                       type = ''lazy-require''\<rparr>)"

text \<open>
  The callback of \<^verbatim>\<open>generateRuntimeEntries\<close> reads the table \<^verbatim>\<open>addonIdToManifest\<close> that
  \<^verbatim>\<open>processAddon\<close> has filled (a finite map here); an addon without an entry makes
  \<^verbatim>\<open>manifest.enabledByDefault\<close> throw.
\<close>

definition runtime_callback :: "(string \<rightharpoonup> json) \<Rightarrow> string \<Rightarrow> js_error + classification" where
  "runtime_callback addonIdToManifest addon_id =
     (case addonIdToManifest addon_id of
        None \<Rightarrow> Inl TypeError
      | Some manifest \<Rightarrow>
          (case get_prop manifest ''enabledByDefault'' of
             Inl e \<Rightarrow> Inl e
           | Inr enabledByDefault \<Rightarrow>
               (case get_prop manifest ''editorOnly'' of
                  Inl e \<Rightarrow> Inl e
                | Inr editorOnly \<Rightarrow>
                    Inr \<lparr>src = ''../addons/'' @ addon_id @ ''/_runtime_entry.js'',
                         name = Some (if truthy enabledByDefault then ''addon-default-entry''
                                      else ''addon-entry-'' @ addon_id),
                         type = (if truthy enabledByDefault \<and> \<not> truthy editorOnly
                                 then ''lazy-require'' else ''lazy-import'')\<rparr>)))"

definition generateRuntimeEntries :: "string list \<Rightarrow> (string \<rightharpoonup> json) \<Rightarrow> js_error + string" where
  "generateRuntimeEntries addons addonIdToManifest =
     generateEntries addons (runtime_callback addonIdToManifest)"

definition generateManifestEntries :: "string list \<Rightarrow> js_error + string" where
  "generateManifestEntries addons =
     generateEntries addons
       (\<lambda>addon_id. Inr \<lparr>src = ''../addons/'' @ addon_id @ ''/_manifest_entry.js'',
                         name = None,
                         type = ''eager-import''\<rparr>)"

text \<open>
  The generated document in closed form. An entry of the table is one line of the
  export section: a key and a value. The value of an eager item is the import name with
  the running number \<open>n\<close>; the value of a lazy item is an arrow function.
\<close>

definition is_eager :: "classification \<Rightarrow> bool" where
  "is_eager c = (type c = ''eager-import'')"

definition recognized :: "classification \<Rightarrow> bool" where
  "recognized c = (type c = ''lazy-import'' \<or> type c = ''lazy-require'' \<or> type c = ''eager-import'')"

definition entry_value :: "nat \<Rightarrow> classification \<Rightarrow> string" where
  "entry_value n c =
     (if type c = ''lazy-import''
      then ''() => import(/* webpackChunkName: '' @ stringify_str (name c) @ '' */ '' @
           quote (src c) @ '')''
      else if type c = ''lazy-require''
      then ''() => require('' @ quote (src c) @ '')''
      else ''_import'' @ decimal n)"

definition entry_line :: "string \<Rightarrow> string \<Rightarrow> string" where
  "entry_line key v = ''  '' @ key @ '': '' @ v @ '',\<newline>''"

definition import_line :: "nat \<Rightarrow> string \<Rightarrow> string" where
  "import_line n s = ''import '' @ (''_import'' @ decimal n) @ '' from '' @ quote s @ '';\<newline>''"

fun export_lines :: "(string \<Rightarrow> classification) \<Rightarrow> nat \<Rightarrow> string list \<Rightarrow> string list" where
  "export_lines f n [] = []"
| "export_lines f n (i # items) =
     entry_line (quote i) (entry_value n (f i)) #
     export_lines f (if is_eager (f i) then Suc n else n) items"

fun import_lines :: "(string \<Rightarrow> classification) \<Rightarrow> nat \<Rightarrow> string list \<Rightarrow> string list" where
  "import_lines f n [] = []"
| "import_lines f n (i # items) =
     (if is_eager (f i) then import_line n (src (f i)) # import_lines f (Suc n) items
      else import_lines f n items)"

text \<open>The number of eager items among the first \<open>j\<close> items: the running number of the
  import name when the loop reaches item \<open>j\<close>.\<close>

definition eager_before :: "(string \<Rightarrow> classification) \<Rightarrow> string list \<Rightarrow> nat \<Rightarrow> nat" where
  "eager_before f items j = length (filter (\<lambda>i. is_eager (f i)) (take j items))"

text \<open>
  The addon-runtime table as the specification describes it: an addon that is enabled
  by default and not editor-only gets a synchronous \<^verbatim>\<open>require\<close> without a chunk name, any
  other addon an \<^verbatim>\<open>import\<close> in the chunk \<^verbatim>\<open>addon-default-entry\<close> when it is enabled by
  default and \<^verbatim>\<open>addon-entry-<id>\<close> otherwise. A flag is true when the manifest's
  value is truthy, which is how the code tests it; a missing flag is false.
\<close>

definition flag :: "json \<Rightarrow> string \<Rightarrow> bool" where
  "flag manifest k = (case get_prop manifest k of Inl e \<Rightarrow> False | Inr v \<Rightarrow> truthy v)"

definition spec_runtime_line :: "string \<Rightarrow> json \<Rightarrow> string" where
  "spec_runtime_line a manifest =
     (if flag manifest ''enabledByDefault'' \<and> \<not> flag manifest ''editorOnly''
      then ''  '' @ quote a @ '': () => require('' @
           quote (''../addons/'' @ a @ ''/_runtime_entry.js'') @ ''),\<newline>''
      else ''  '' @ quote a @ '': () => import(/* webpackChunkName: '' @
           quote (if flag manifest ''enabledByDefault'' then ''addon-default-entry''
                  else ''addon-entry-'' @ a) @
           '' */ '' @ quote (''../addons/'' @ a @ ''/_runtime_entry.js'') @ ''),\<newline>'')"

text \<open>The classification the callback of \<^verbatim>\<open>generateRuntimeEntries\<close> returns for an addon
  with the manifest \<open>m a\<close>.\<close>

definition runtime_class :: "(string \<Rightarrow> json) \<Rightarrow> string \<Rightarrow> classification" where
  "runtime_class m a =
     \<lparr>src = ''../addons/'' @ a @ ''/_runtime_entry.js'',
      name = Some (if flag (m a) ''enabledByDefault'' then ''addon-default-entry''
                   else ''addon-entry-'' @ a),
      type = (if flag (m a) ''enabledByDefault'' \<and> \<not> flag (m a) ''editorOnly''
              then ''lazy-require'' else ''lazy-import'')\<rparr>"

section \<open>Properties\<close>

subsection \<open>Strings\<close>

lemma startsWith_iff: "startsWith s t \<longleftrightarrow> (\<exists>q. s = t @ q)"
  by (induction s t rule: startsWith.induct) auto

lemma includes_str_iff: "includes_str s t \<longleftrightarrow> (\<exists>p q. s = p @ t @ q)"
proof (induction s)
  case Nil
  show ?case by auto
next
  case (Cons x xs)
  show ?case
  proof
    assume "includes_str (x # xs) t"
    then consider "startsWith (x # xs) t" | "includes_str xs t" by auto
    then show "\<exists>p q. x # xs = p @ t @ q"
    proof cases
      case 1
      then obtain q where "x # xs = t @ q" by (auto simp: startsWith_iff)
      then have "x # xs = [] @ t @ q" by simp
      then show ?thesis by blast
    next
      case 2
      then obtain p q where "xs = p @ t @ q" using Cons.IH by blast
      then have "x # xs = (x # p) @ t @ q" by simp
      then show ?thesis by blast
    qed
  next
    assume "\<exists>p q. x # xs = p @ t @ q"
    then obtain p q where pq: "x # xs = p @ t @ q" by blast
    show "includes_str (x # xs) t"
    proof (cases p)
      case Nil
      then have "startsWith (x # xs) t" using pq by (auto simp: startsWith_iff)
      then show ?thesis by simp
    next
      case (Cons y p')
      then have "xs = p' @ t @ q" using pq by simp
      then have "includes_str xs t" using Cons.IH by blast
      then show ?thesis by simp
    qed
  qed
qed

lemma includes_str_append: "includes_str a t \<Longrightarrow> includes_str (a @ b) t"
proof -
  assume "includes_str a t"
  then obtain p q where "a = p @ t @ q" by (auto simp: includes_str_iff)
  then have "a @ b = p @ t @ (q @ b)" by simp
  then show ?thesis unfolding includes_str_iff by blast
qed



lemma hex_value_digit_all: "list_all (\<lambda>k. hex_value (hex_digit k) = Some k) [0..<16]"
  by code_simp

lemma hex_value_digit: "k < 16 \<Longrightarrow> hex_value (hex_digit k) = Some k"
  using hex_value_digit_all by (simp add: list_all_iff)

lemma unescape_u:
  "unescape ([CHR 0x5C, CHR ''u'', CHR ''0'', CHR ''0'', hex_digit v, hex_digit w] @ r) =
     (case (hex_value (hex_digit v), hex_value (hex_digit w)) of
        (Some x, Some y) \<Rightarrow> map_option ((#) (char_of (x * 16 + y))) (unescape r)
      | _ \<Rightarrow> None)"
  by (simp add: hex_value_def split: option.splits)

lemma unescape_escape_char:
  "unescape (escape_char c @ r) = map_option ((#) c) (unescape r)"
proof (cases "(of_char c :: nat) < 32 \<and> c \<notin> {CHR 0x08, CHR 0x09, CHR 0x0A, CHR 0x0C, CHR 0x0D}")
  case True
  let ?n = "of_char c :: nat"
  have lt: "?n < 32" using True by blast
  have ne: "c \<noteq> CHR 0x22" "c \<noteq> CHR 0x5C"
  proof -
    show "c \<noteq> CHR 0x22"
    proof
      assume "c = CHR 0x22"
      then have "?n = 34" by simp
      then show False using lt by simp
    qed
    show "c \<noteq> CHR 0x5C"
    proof
      assume "c = CHR 0x5C"
      then have "?n = 92" by simp
      then show False using lt by simp
    qed
  qed
  have sp: "c \<noteq> CHR 0x08" "c \<noteq> CHR 0x09" "c \<noteq> CHR 0x0A" "c \<noteq> CHR 0x0C" "c \<noteq> CHR 0x0D"
    using True by blast+
  have e: "escape_char c =
      [CHR 0x5C, CHR ''u'', CHR ''0'', CHR ''0'', hex_digit (?n div 16), hex_digit (?n mod 16)]"
    using lt ne sp by (simp add: escape_char_def)
  have d: "?n div 16 < 16" "?n mod 16 < 16" using lt by arith+
  have "char_of (?n div 16 * 16 + ?n mod 16) = c" by simp
  then show ?thesis
    unfolding e unescape_u hex_value_digit [OF d(1)] hex_value_digit [OF d(2)] by simp
next
  case False
  then show ?thesis
    by (auto simp: escape_char_def simple_escape_def)
qed

lemma unescape_escaped: "unescape (concat (map escape_char s)) = Some s"
  by (induction s) (simp_all add: unescape_escape_char)

lemma literal_value_quote: "literal_value (quote s) = Some s"
  by (simp add: literal_value_def quote_def unescape_escaped)

lemma quote_inj: "quote s = quote t \<longleftrightarrow> s = t"
  by (metis literal_value_quote option.inject)

subsection \<open>Tree walker\<close>

lemma walk_paths_aux:
  "(isDirectory n \<longrightarrow> walk n = Inr (paths n))"
  "walk_loop children files =
     Inr (files @ concat (map (\<lambda>(c, n). if isDirectory n then map (pathUtil_join c) (paths n) else [c]) children))"
  by (induction n and children files rule: walk_walk_loop.induct) auto

lemma walk_Dir_paths: "walk (Dir children) = Inr (paths (Dir children))"
  using walk_paths_aux(1) [of "Dir children"] by simp

lemma file_at_File: "file_at (File s) cs \<longleftrightarrow> cs = []"
  by (subst file_at.simps) auto

lemma file_at_Dir:
  "file_at (Dir children) cs \<longleftrightarrow> (\<exists>c n cs'. cs = c # cs' \<and> (c, n) \<in> set children \<and> file_at n cs')"
  by (subst file_at.simps) auto

lemma rel_path_Cons: "cs \<noteq> [] \<Longrightarrow> rel_path (c # cs) = pathUtil_join c (rel_path cs)"
  by (cases cs) (simp_all add: pathUtil_join_def)

lemma set_paths: "set (paths n) = (if isDirectory n then {rel_path cs | cs. file_at n cs} else {})"
proof (induction n rule: paths.induct)
  case (1 contents)
  show ?case by simp
next
  case (2 children)
  have IH: "\<And>c n. (c, n) \<in> set children \<Longrightarrow> isDirectory n \<Longrightarrow>
            set (paths n) = {rel_path cs | cs. file_at n cs}"
    using 2 by auto
  show ?case
  proof (intro set_eqI iffI)
    fix x assume "x \<in> set (paths (Dir children))"
    then obtain c n where cn: "(c, n) \<in> set children"
      and x: "x \<in> set (if isDirectory n then map (pathUtil_join c) (paths n) else [c])"
      by auto
    show "x \<in> (if isDirectory (Dir children) then {rel_path cs | cs. file_at (Dir children) cs} else {})"
    proof (cases "isDirectory n")
      case True
      with x obtain p where p: "p \<in> set (paths n)" and xp: "x = pathUtil_join c p" by auto
      from p IH [OF cn True] obtain cs where cs: "file_at n cs" "p = rel_path cs" by auto
      from True obtain ch where "n = Dir ch" by (cases n) auto
      with cs have "cs \<noteq> []" by (auto simp: file_at_Dir)
      then have "x = rel_path (c # cs)" using xp cs by (simp add: rel_path_Cons)
      moreover have "file_at (Dir children) (c # cs)" using cn cs by (auto intro: file_at.intros)
      ultimately show ?thesis by auto
    next
      case False
      then obtain s where "n = File s" by (cases n) auto
      then have "file_at (Dir children) [c]" using cn by (auto intro: file_at.intros)
      moreover have "x = rel_path [c]" using x False by simp
      ultimately show ?thesis by (auto intro!: exI [of _ "[c]"])
    qed
  next
    fix x assume "x \<in> (if isDirectory (Dir children) then {rel_path cs | cs. file_at (Dir children) cs} else {})"
    then obtain c n cs where x: "x = rel_path (c # cs)" and cn: "(c, n) \<in> set children"
      and f: "file_at n cs"
      by (auto simp: file_at_Dir)
    show "x \<in> set (paths (Dir children))"
    proof (cases "isDirectory n")
      case True
      then obtain ch where "n = Dir ch" by (cases n) auto
      with f have ne: "cs \<noteq> []" by (auto simp: file_at_Dir)
      have "rel_path cs \<in> set (paths n)" using IH [OF cn True] f by auto
      then have "x \<in> set (map (pathUtil_join c) (paths n))"
        using x ne by (simp add: rel_path_Cons)
      then show ?thesis using cn True by force
    next
      case False
      then obtain s where "n = File s" by (cases n) auto
      with f have "cs = []" by (simp add: file_at_File)
      then have "x = c" using x by simp
      then show ?thesis using cn False by force
    qed
  qed
qed

lemma first_comp_name: "CHR ''/'' \<notin> set c \<Longrightarrow> first_comp c = c"
  by (auto simp: first_comp_def takeWhile_eq_all_conv)

lemma first_comp_join: "CHR ''/'' \<notin> set c \<Longrightarrow> first_comp (pathUtil_join c p) = c"
  by (simp add: first_comp_def pathUtil_join_def takeWhile_append)

lemma distinct_join: "distinct ps \<Longrightarrow> distinct (map (pathUtil_join c) ps)"
  by (simp add: distinct_map pathUtil_join_def inj_on_def)

lemma entry_first_comp:
  "CHR ''/'' \<notin> set c \<Longrightarrow>
   p \<in> set (if isDirectory n then map (pathUtil_join c) (paths n) else [c]) \<Longrightarrow> first_comp p = c"
  by (auto simp: first_comp_name first_comp_join split: if_splits)

lemma distinct_entries:
  assumes "distinct (map fst children)"
    and "\<And>c n. (c, n) \<in> set children \<Longrightarrow> CHR ''/'' \<notin> set c \<and> distinct (paths n)"
  shows "distinct (concat (map (\<lambda>(c, n). if isDirectory n then map (pathUtil_join c) (paths n) else [c]) children))"
  using assms
proof (induction children)
  case Nil
  show ?case by simp
next
  case (Cons e rest)
  obtain c n where e: "e = (c, n)" by (cases e)
  let ?f = "\<lambda>(c, n). if isDirectory n then map (pathUtil_join c) (paths n) else [c]"
  have c: "CHR ''/'' \<notin> set c" "distinct (paths n)" using Cons.prems(2) [of c n] e by auto
  have d1: "distinct (?f e)" using c e by (simp add: distinct_join)
  have d2: "distinct (concat (map ?f rest))"
    using Cons.IH Cons.prems by auto
  have disj: "set (?f e) \<inter> set (concat (map ?f rest)) = {}"
  proof (rule ccontr)
    assume "set (?f e) \<inter> set (concat (map ?f rest)) \<noteq> {}"
    then obtain p where p1: "p \<in> set (?f e)" and p2: "p \<in> set (concat (map ?f rest))" by auto
    from p1 have "first_comp p = c" using entry_first_comp [OF c(1), of p n] e by simp
    moreover from p2 obtain c' n' where r: "(c', n') \<in> set rest" and "p \<in> set (?f (c', n'))"
      by auto
    then have "first_comp p = c'" using entry_first_comp [of c' p n'] Cons.prems(2) [of c' n'] by simp
    ultimately have "c \<in> fst ` set rest" using r by force
    then show False using Cons.prems(1) e by simp
  qed
  show ?case using d1 d2 disj by simp
qed

lemma distinct_paths: "wf_tree n \<Longrightarrow> distinct (paths n)"
proof (induction n rule: paths.induct)
  case (1 contents)
  show ?case by simp
next
  case (2 children)
  have "\<And>c n. (c, n) \<in> set children \<Longrightarrow> CHR ''/'' \<notin> set c \<and> distinct (paths n)"
  proof -
    fix c n assume cn: "(c, n) \<in> set children"
    then have w: "CHR ''/'' \<notin> set c" "wf_tree n" using 2(2) by (auto simp: list_all_iff)
    show "CHR ''/'' \<notin> set c \<and> distinct (paths n)"
    proof (cases "isDirectory n")
      case True
      then show ?thesis using 2(1) [OF cn _ True] w cn by auto
    next
      case False
      then obtain s where "n = File s" by (cases n) auto
      then show ?thesis using w by simp
    qed
  qed
  then show ?case using 2(2) distinct_entries [of children] by simp
qed

text \<open>
  Claim C10. On a well-formed directory tree, \<open>walk\<close> returns a list without duplicates
  whose elements are exactly the relative paths of the files of the tree, at any depth;
  directories themselves are not listed. On a directory with the files
  \<^verbatim>\<open>a\<close>, \<^verbatim>\<open>b/c\<close> and \<^verbatim>\<open>b/d\<close> it returns these three paths.
\<close>

theorem walk_lists_files:
  assumes "wf_tree (Dir children)"
  shows "(\<exists>files. walk (Dir children) = Inr files \<and> distinct files \<and>
            set files = {rel_path cs | cs. file_at (Dir children) cs}) \<and>
         walk (Dir [(''a'', File fa), (''b'', Dir [(''c'', File fc), (''d'', File fd)])]) =
           Inr [''a'', ''b/c'', ''b/d'']"
proof -
  have "distinct (paths (Dir children))" using assms by (rule distinct_paths)
  moreover have "set (paths (Dir children)) = {rel_path cs | cs. file_at (Dir children) cs}"
    by (subst set_paths) simp
  ultimately have "\<exists>files. walk (Dir children) = Inr files \<and> distinct files \<and>
      set files = {rel_path cs | cs. file_at (Dir children) cs}"
    using walk_Dir_paths [of children] by blast
  moreover have "walk (Dir [(''a'', File fa), (''b'', Dir [(''c'', File fc), (''d'', File fd)])]) =
      Inr [''a'', ''b/c'', ''b/d'']"
    by (simp add: pathUtil_join_def)
  ultimately show ?thesis by blast
qed

theorem walk_lists_files_witness:
  "wf_tree (Dir [(''a'', File ''x''), (''b'', Dir [(''c'', File ''y''), (''d'', File ''z'')]), (''e'', Dir [])]) \<and>
   (\<exists>files. walk (Dir [(''a'', File ''x''), (''b'', Dir [(''c'', File ''y''), (''d'', File ''z'')]), (''e'', Dir [])]) = Inr files \<and>
      distinct files \<and>
      set files = {rel_path cs | cs.
        file_at (Dir [(''a'', File ''x''), (''b'', Dir [(''c'', File ''y''), (''d'', File ''z'')]), (''e'', Dir [])]) cs})"
proof -
  have w: "wf_tree (Dir [(''a'', File ''x''), (''b'', Dir [(''c'', File ''y''), (''d'', File ''z'')]), (''e'', Dir [])])"
    by simp
  from walk_lists_files [OF w] show ?thesis using w by blast
qed

subsection \<open>Polyfill injection\<close>

lemma polyfill_import_has_token: "includes_str polyfill_import ''EventTarget''"
  by (simp add: polyfill_import_def)

lemma polyfill_import_nonempty: "polyfill_import \<noteq> []"
  by (simp add: polyfill_import_def)

lemma includePolyfills_twice:
  "includes_str contents ''EventTarget'' \<Longrightarrow>
   includePolyfills (includePolyfills contents) = polyfill_import @ polyfill_import @ contents"
  by (simp add: includePolyfills_def includes_str_append polyfill_import_has_token)

text \<open>
  Claim C6 says that applying the transform to its own output gives the same result as
  applying it once. The inserted import line contains the token \<^verbatim>\<open>EventTarget\<close> itself, so
  a second application prepends the line again.
\<close>

theorem includePolyfills_idempotent_counterexample:
  "includePolyfills ''EventTarget'' = polyfill_import @ ''EventTarget'' \<and>
   includePolyfills (includePolyfills ''EventTarget'') =
     polyfill_import @ polyfill_import @ ''EventTarget'' \<and>
   includePolyfills (includePolyfills ''EventTarget'') \<noteq> includePolyfills ''EventTarget''"
proof -
  have t: "includes_str ''EventTarget'' ''EventTarget''" by simp
  have one: "includePolyfills ''EventTarget'' = polyfill_import @ ''EventTarget''"
    using t by (simp only: includePolyfills_def if_True)
  have two: "includePolyfills (includePolyfills ''EventTarget'') =
      polyfill_import @ polyfill_import @ ''EventTarget''"
    using t by (rule includePolyfills_twice)
  have "polyfill_import @ polyfill_import @ ''EventTarget'' \<noteq> polyfill_import @ ''EventTarget''"
    using polyfill_import_nonempty by simp
  then show ?thesis using one two by simp
qed

text \<open>
  Claim C6, amended. One application prepends the import line (with its blank line) once
  when the contents contain the token, however often it occurs, and returns the contents
  unchanged otherwise. On contents with the token a second application prepends the line
  once more; the transform applied to its own output gives the same result exactly when
  the contents do not contain the token.
\<close>

theorem includePolyfills_once:
  "includePolyfills contents =
     (if includes_str contents ''EventTarget'' then polyfill_import @ contents else contents) \<and>
   (includes_str contents ''EventTarget'' \<longrightarrow>
      includePolyfills (includePolyfills contents) = polyfill_import @ polyfill_import @ contents) \<and>
   (includePolyfills (includePolyfills contents) = includePolyfills contents
      \<longleftrightarrow> \<not> includes_str contents ''EventTarget'')"
proof -
  have a: "includePolyfills contents =
     (if includes_str contents ''EventTarget'' then polyfill_import @ contents else contents)"
    by (simp add: includePolyfills_def)
  have c: "includePolyfills (includePolyfills contents) = includePolyfills contents
      \<longleftrightarrow> \<not> includes_str contents ''EventTarget''"
  proof (cases "includes_str contents ''EventTarget''")
    case True
    have "polyfill_import @ polyfill_import @ contents \<noteq> polyfill_import @ contents"
      using polyfill_import_nonempty by simp
    then show ?thesis using True includePolyfills_twice [OF True] by (simp add: includePolyfills_def)
  next
    case False
    then show ?thesis by (simp add: includePolyfills_def)
  qed
  show ?thesis using a c includePolyfills_twice by blast
qed

theorem includePolyfills_once_witness:
  "includes_str ''new EventTarget(); EventTarget'' ''EventTarget'' \<and>
   includePolyfills ''new EventTarget(); EventTarget'' =
     polyfill_import @ ''new EventTarget(); EventTarget'' \<and>
   includePolyfills (includePolyfills ''new EventTarget(); EventTarget'') =
     polyfill_import @ polyfill_import @ ''new EventTarget(); EventTarget'' \<and>
   \<not> includes_str ''let x = 1;'' ''EventTarget'' \<and>
   includePolyfills ''let x = 1;'' = ''let x = 1;'' \<and>
   includePolyfills (includePolyfills ''let x = 1;'') = includePolyfills ''let x = 1;''"
proof -
  have t: "includes_str ''new EventTarget(); EventTarget'' ''EventTarget''" by simp
  have f: "\<not> includes_str ''let x = 1;'' ''EventTarget''" by simp
  from includePolyfills_once [of "''new EventTarget(); EventTarget''"] t
  have a: "includePolyfills ''new EventTarget(); EventTarget'' =
       polyfill_import @ ''new EventTarget(); EventTarget'' \<and>
     includePolyfills (includePolyfills ''new EventTarget(); EventTarget'') =
       polyfill_import @ polyfill_import @ ''new EventTarget(); EventTarget''"
    by metis
  from includePolyfills_once [of "''let x = 1;''"] f
  have b: "includePolyfills ''let x = 1;'' = ''let x = 1;'' \<and>
     includePolyfills (includePolyfills ''let x = 1;'') = includePolyfills ''let x = 1;''"
    by metis
  show ?thesis using a b t f by blast
qed

subsection \<open>Asset-path rewriting\<close>

lemma strip_prefix_iff: "strip_prefix p s = Some r \<longleftrightarrow> s = p @ r"
  by (induction p s rule: strip_prefix.induct) auto

lemma strip_prefix_append: "strip_prefix p (p @ r) = Some r"
  by (simp add: strip_prefix_iff)








































subsection \<open>Manifest transformer\<close>

lemma js_delete_absent: "js_delete k v = Inr v' \<Longrightarrow> \<not> has_key v' k"
  by (cases v) (auto simp: AList.delete_eq)

lemma js_delete_keeps_absent: "js_delete k' v = Inr v' \<Longrightarrow> \<not> has_key v k \<Longrightarrow> \<not> has_key v' k"
  by (cases v) (auto simp: AList.delete_eq)

lemma delete_all_keeps_absent: "delete_all ks v = Inr v' \<Longrightarrow> \<not> has_key v k \<Longrightarrow> \<not> has_key v' k"
  by (induction ks arbitrary: v) (auto split: sum.splits dest: js_delete_keeps_absent)

lemma delete_all_absent: "delete_all ks v = Inr v' \<Longrightarrow> k \<in> set ks \<Longrightarrow> \<not> has_key v' k"
proof (induction ks arbitrary: v)
  case Nil
  then show ?case by simp
next
  case (Cons a ks)
  from Cons.prems(1) obtain w where w: "js_delete a v = Inr w" "delete_all ks w = Inr v'"
    by (auto split: sum.splits)
  show ?case
  proof (cases "k = a")
    case True
    then have "\<not> has_key w k" using w(1) by (simp add: js_delete_absent)
    then show ?thesis using w(2) by (rule delete_all_keeps_absent [rotated])
  next
    case False
    then show ?thesis using Cons w by auto
  qed
qed

lemma delete_each_absent:
  "delete_each ks us = Inr us' \<Longrightarrow> u \<in> set us' \<Longrightarrow> k \<in> set ks \<Longrightarrow> \<not> has_key u k"
  by (induction us arbitrary: us') (auto split: sum.splits dest: delete_all_absent)

lemma keys_update: "fst ` set (AList.update k v al) = insert k (fst ` set al)"
  using dom_update [of k v al] by (simp add: dom_map_of_conv_image_fst)

lemma strip_entries_keys:
  "strip_entries field ks kvs = Inr kvs' \<Longrightarrow> fst ` set kvs' = fst ` set kvs"
proof -
  assume a: "strip_entries field ks kvs = Inr kvs'"
  show ?thesis
  proof (cases "kvs' = kvs")
    case True
    then show ?thesis by simp
  next
    case False
    with a obtain us us' where "map_of kvs field = Some (JArr us)"
      and k: "kvs' = AList.update field (JArr us') kvs"
      by (auto simp: strip_entries_def split: if_splits option.splits json.splits sum.splits)
    then have "field \<in> fst ` set kvs" by (metis map_of_eq_None_iff option.distinct(1))
    then show ?thesis using k by (simp add: keys_update insert_absorb)
  qed
qed

lemma strip_entries_other:
  "strip_entries field ks kvs = Inr kvs' \<Longrightarrow> g \<noteq> field \<Longrightarrow> map_of kvs' g = map_of kvs g"
  by (auto simp: strip_entries_def update_conv'
      split: if_splits option.splits json.splits sum.splits)

lemma strip_entries_field:
  "strip_entries field ks kvs = Inr kvs' \<Longrightarrow> map_of kvs' field = Some (JArr us) \<Longrightarrow>
   u \<in> set us \<Longrightarrow> k \<in> set ks \<Longrightarrow> \<not> has_key u k"
  by (auto simp: strip_entries_def update_conv'
      split: if_splits option.splits json.splits sum.splits dest: delete_each_absent)

lemma filter_tags_obj:
  "filter_tags newAddons addon_id manifest = Inr m' \<Longrightarrow>
   \<exists>kvs tags. manifest = JObj kvs \<and> map_of kvs ''tags'' = Some (JArr tags) \<and>
     m' = JObj (AList.update ''tags''
            (JArr (filter (\<lambda>i. i \<in> set (map JStr KEEP_TAGS)) tags @
                   (if addon_id \<in> set newAddons then [JStr ''new''] else []))) kvs)"
  by (auto simp: filter_tags_def split: json.splits option.splits)

lemma delete_all_obj: "delete_all ks (JObj kvs) = Inr v \<Longrightarrow> \<exists>kvs'. v = JObj kvs'"
  by (induction ks arbitrary: kvs) (auto split: sum.splits)

lemma generateManifestEntry_parts:
  assumes "generateManifestEntry newAddons addon_id manifest = Inr r"
  shows "\<exists>m' text.
           filter_tags newAddons addon_id manifest = Inr m' \<and>
           trim_manifest m' = Inr (trimmedManifest r) \<and>
           render_manifest addon_id m' (trimmedManifest r) = Inr text \<and>
           manifest_after r = m' \<and> result r = text"
  using assms by (auto simp: generateManifestEntry_def split: sum.splits)

lemma trim_manifest_obj:
  assumes "trim_manifest (JObj kvs) = Inr t"
  shows "\<exists>k0 k1 k2.
           delete_all [''versionAdded'', ''libraries'', ''injectAsStyleElt'',
                       ''enabledByDefaultMobile'', ''permissions''] (JObj kvs) = Inr (JObj k0) \<and>
           strip_entries ''userscripts'' [''matches'', ''runAtComplete''] k0 = Inr k1 \<and>
           strip_entries ''userstyles'' [''matches''] k1 = Inr k2 \<and> t = JObj k2"
proof -
  obtain v where v: "delete_all [''versionAdded'', ''libraries'', ''injectAsStyleElt'',
                       ''enabledByDefaultMobile'', ''permissions''] (JObj kvs) = Inr v"
    using assms by (auto simp: trim_manifest_def clone_def split: sum.splits)
  then obtain k0 where k0: "v = JObj k0" using delete_all_obj by blast
  show ?thesis
    using assms v unfolding k0 trim_manifest_def clone_def
    by (auto split: sum.splits)
qed

text \<open>
  Claim C1. Whenever \<open>generateManifestEntry\<close> returns, the trimmed manifest it serialises
  has none of the top-level keys \<^verbatim>\<open>versionAdded\<close>, \<^verbatim>\<open>libraries\<close>, \<^verbatim>\<open>injectAsStyleElt\<close>,
  \<^verbatim>\<open>enabledByDefaultMobile\<close> and \<^verbatim>\<open>permissions\<close>; no entry of its \<^verbatim>\<open>userscripts\<close> list has
  a \<^verbatim>\<open>matches\<close> or \<^verbatim>\<open>runAtComplete\<close> field, and no entry of its \<^verbatim>\<open>userstyles\<close> list has a
  \<^verbatim>\<open>matches\<close> field. The returned document starts with the serialisation of exactly
  this trimmed manifest.
\<close>

theorem generateManifestEntry_trims:
  assumes "generateManifestEntry newAddons addon_id manifest = Inr r"
  shows "\<not> has_key (trimmedManifest r) ''versionAdded'' \<and>
         \<not> has_key (trimmedManifest r) ''libraries'' \<and>
         \<not> has_key (trimmedManifest r) ''injectAsStyleElt'' \<and>
         \<not> has_key (trimmedManifest r) ''enabledByDefaultMobile'' \<and>
         \<not> has_key (trimmedManifest r) ''permissions'' \<and>
         (\<forall>us u. get_prop (trimmedManifest r) ''userscripts'' = Inr (Some (JArr us)) \<longrightarrow>
            u \<in> set us \<longrightarrow> \<not> has_key u ''matches'' \<and> \<not> has_key u ''runAtComplete'') \<and>
         (\<forall>us u. get_prop (trimmedManifest r) ''userstyles'' = Inr (Some (JArr us)) \<longrightarrow>
            u \<in> set us \<longrightarrow> \<not> has_key u ''matches'') \<and>
         (\<exists>rest. result r =
            ''/* generated by pull.js */\<newline>'' @ ''const manifest = '' @
            stringify_pretty 0 (trimmedManifest r) @ '';\<newline>'' @ rest)"
proof -
  from generateManifestEntry_parts [OF assms] obtain m' doc where
    ft: "filter_tags newAddons addon_id manifest = Inr m'" and
    tr: "trim_manifest m' = Inr (trimmedManifest r)" and
    re: "render_manifest addon_id m' (trimmedManifest r) = Inr doc" and
    res: "result r = doc"
    by blast
  from filter_tags_obj [OF ft] obtain kvs where m': "m' = JObj kvs" by blast
  from trim_manifest_obj [OF tr [unfolded m']] obtain k0 k1 k2 where
    d: "delete_all [''versionAdded'', ''libraries'', ''injectAsStyleElt'',
                    ''enabledByDefaultMobile'', ''permissions''] (JObj kvs) = Inr (JObj k0)" and
    s1: "strip_entries ''userscripts'' [''matches'', ''runAtComplete''] k0 = Inr k1" and
    s2: "strip_entries ''userstyles'' [''matches''] k1 = Inr k2" and
    t: "trimmedManifest r = JObj k2"
    by blast
  have keys: "fst ` set k2 = fst ` set k0"
    using strip_entries_keys [OF s1] strip_entries_keys [OF s2] by simp
  have absent: "\<And>k. k \<in> set [''versionAdded'', ''libraries'', ''injectAsStyleElt'',
                    ''enabledByDefaultMobile'', ''permissions''] \<Longrightarrow> \<not> has_key (trimmedManifest r) k"
  proof -
    fix k assume "k \<in> set [''versionAdded'', ''libraries'', ''injectAsStyleElt'',
                    ''enabledByDefaultMobile'', ''permissions'']"
    from delete_all_absent [OF d this] show "\<not> has_key (trimmedManifest r) k"
      using keys t by simp
  qed
  have scripts: "\<And>us u. get_prop (trimmedManifest r) ''userscripts'' = Inr (Some (JArr us)) \<Longrightarrow>
      u \<in> set us \<Longrightarrow> \<not> has_key u ''matches'' \<and> \<not> has_key u ''runAtComplete''"
  proof -
    fix us u assume g: "get_prop (trimmedManifest r) ''userscripts'' = Inr (Some (JArr us))"
      and u: "u \<in> set us"
    have "map_of k2 ''userscripts'' = map_of k1 ''userscripts''"
      using strip_entries_other [OF s2, of "''userscripts''"] by simp
    then have "map_of k1 ''userscripts'' = Some (JArr us)" using g t by simp
    from strip_entries_field [OF s1 this u]
    show "\<not> has_key u ''matches'' \<and> \<not> has_key u ''runAtComplete''" by simp
  qed
  have styles: "\<And>us u. get_prop (trimmedManifest r) ''userstyles'' = Inr (Some (JArr us)) \<Longrightarrow>
      u \<in> set us \<Longrightarrow> \<not> has_key u ''matches''"
  proof -
    fix us u assume g: "get_prop (trimmedManifest r) ''userstyles'' = Inr (Some (JArr us))"
      and u: "u \<in> set us"
    then have "map_of k2 ''userstyles'' = Some (JArr us)" using t by simp
    from strip_entries_field [OF s2 this u] show "\<not> has_key u ''matches''" by simp
  qed
  have doc: "\<exists>rest. result r =
            ''/* generated by pull.js */\<newline>'' @ ''const manifest = '' @
            stringify_pretty 0 (trimmedManifest r) @ '';\<newline>'' @ rest"
  proof (cases "wants_clipboard m'")
    case (Inl e)
    then show ?thesis using re by (simp add: render_manifest_def)
  next
    case (Inr clip)
    then have "Inr (''/* generated by pull.js */\<newline>'' @ ''const manifest = '' @
            stringify_pretty 0 (trimmedManifest r) @ '';\<newline>'' @
            mobile_lines m' @ (if clip then clipboard_lines else []) @
            (if addon_id = ''mediarecorder'' then mediarecorder_lines else []) @
            ''export default manifest;\<newline>'') = (Inr doc :: js_error + string)"
      using re by (simp only: render_manifest_def sum.case)
    then show ?thesis unfolding res by blast
  qed
  show ?thesis using absent scripts styles doc by simp
qed

theorem generateManifestEntry_trims_witness:
  "\<exists>r. generateManifestEntry [''a''] ''a''
          (JObj [(''tags'', JArr [JStr ''beta'', JStr ''editor'']), (''versionAdded'', JStr ''1''),
                 (''permissions'', JArr []),
                 (''userscripts'', JArr [JObj [(''url'', JStr ''u''), (''matches'', JArr []),
                                               (''runAtComplete'', JBool False)]]),
                 (''userstyles'', JArr [JObj [(''url'', JStr ''s''), (''matches'', JArr [])]])]) = Inr r \<and>
       trimmedManifest r =
         JObj [(''tags'', JArr [JStr ''beta'', JStr ''new'']),
               (''userscripts'', JArr [JObj [(''url'', JStr ''u'')]]),
               (''userstyles'', JArr [JObj [(''url'', JStr ''s'')]])] \<and>
       \<not> has_key (trimmedManifest r) ''versionAdded'' \<and>
       \<not> has_key (trimmedManifest r) ''permissions'' \<and>
       (\<forall>us u. get_prop (trimmedManifest r) ''userscripts'' = Inr (Some (JArr us)) \<longrightarrow>
            u \<in> set us \<longrightarrow> \<not> has_key u ''matches'' \<and> \<not> has_key u ''runAtComplete'')"
proof -
  let ?m = "JObj [(''tags'', JArr [JStr ''beta'', JStr ''editor'']), (''versionAdded'', JStr ''1''),
                 (''permissions'', JArr []),
                 (''userscripts'', JArr [JObj [(''url'', JStr ''u''), (''matches'', JArr []),
                                               (''runAtComplete'', JBool False)]]),
                 (''userstyles'', JArr [JObj [(''url'', JStr ''s''), (''matches'', JArr [])]])]"
  have "\<exists>r. generateManifestEntry [''a''] ''a'' ?m = Inr r \<and>
       trimmedManifest r =
         JObj [(''tags'', JArr [JStr ''beta'', JStr ''new'']),
               (''userscripts'', JArr [JObj [(''url'', JStr ''u'')]]),
               (''userstyles'', JArr [JObj [(''url'', JStr ''s'')]])]"
    by (simp add: generateManifestEntry_def filter_tags_def trim_manifest_def clone_def
        strip_entries_def render_manifest_def wants_clipboard_def KEEP_TAGS_def AList.delete_eq)
  then obtain r where r: "generateManifestEntry [''a''] ''a'' ?m = Inr r"
    and t: "trimmedManifest r =
         JObj [(''tags'', JArr [JStr ''beta'', JStr ''new'']),
               (''userscripts'', JArr [JObj [(''url'', JStr ''u'')]]),
               (''userstyles'', JArr [JObj [(''url'', JStr ''s'')]])]"
    by blast
  from generateManifestEntry_trims [OF r] show ?thesis using r t by blast
qed

text \<open>
  Claim C7 says that \<open>generateManifestEntry\<close> leaves its manifest argument unchanged. It
  does not: the assignment to \<^verbatim>\<open>manifest.tags\<close> and the \<^verbatim>\<open>push\<close> happen on the argument
  itself, before the copy is made. A manifest with the single tag \<^verbatim>\<open>editor\<close> comes back
  with an empty tag list.
\<close>

theorem generateManifestEntry_read_only_counterexample:
  \<open>generateManifestEntry [] ''a'' (JObj [(''tags'', JArr [JStr ''editor''])]) =
     Inr \<lparr>manifest_after = JObj [(''tags'', JArr [])],
          trimmedManifest = JObj [(''tags'', JArr [])],
          result =
            ''/* generated by pull.js */\<newline>'' @
            ''const manifest = {\<newline>'' @
            ''  "tags": []\<newline>'' @
            ''};\<newline>'' @
            ''export default manifest;\<newline>''\<rparr> \<and>
   JObj [(''tags'', JArr [])] \<noteq> JObj [(''tags'', JArr [JStr ''editor''])]\<close>
  by code_simp

text \<open>
  Claim C7, amended. \<open>generateManifestEntry\<close> changes its manifest argument in the
  \<^verbatim>\<open>tags\<close> property only: afterwards the argument has the same properties in the same
  order, every property other than \<^verbatim>\<open>tags\<close> has its old value (the field removals happen
  on the copy), and \<^verbatim>\<open>tags\<close> holds the old tags filtered to the allow-list, followed by
  \<^verbatim>\<open>new\<close> when the addon is in the new-addons list.
\<close>

theorem generateManifestEntry_changes_only_tags:
  assumes "generateManifestEntry newAddons addon_id manifest = Inr r"
  shows "\<exists>kvs kvs' tags.
           manifest = JObj kvs \<and> manifest_after r = JObj kvs' \<and>
           map fst kvs' = map fst kvs \<and>
           (\<forall>k. k \<noteq> ''tags'' \<longrightarrow> map_of kvs' k = map_of kvs k) \<and>
           map_of kvs ''tags'' = Some (JArr tags) \<and>
           map_of kvs' ''tags'' =
             Some (JArr (filter (\<lambda>i. i \<in> set (map JStr KEEP_TAGS)) tags @
                         (if addon_id \<in> set newAddons then [JStr ''new''] else [])))"
proof -
  from generateManifestEntry_parts [OF assms] obtain m' where
    ft: "filter_tags newAddons addon_id manifest = Inr m'" and ma: "manifest_after r = m'"
    by blast
  from filter_tags_obj [OF ft] obtain kvs tags where
    m: "manifest = JObj kvs" and tg: "map_of kvs ''tags'' = Some (JArr tags)" and
    m': "m' = JObj (AList.update ''tags''
            (JArr (filter (\<lambda>i. i \<in> set (map JStr KEEP_TAGS)) tags @
                   (if addon_id \<in> set newAddons then [JStr ''new''] else []))) kvs)"
    by blast
  have "''tags'' \<in> fst ` set kvs" using tg by (metis map_of_eq_None_iff option.distinct(1))
  then have "map fst (AList.update ''tags''
            (JArr (filter (\<lambda>i. i \<in> set (map JStr KEEP_TAGS)) tags @
                   (if addon_id \<in> set newAddons then [JStr ''new''] else []))) kvs) = map fst kvs"
    by (simp add: update_keys)
  then show ?thesis using m tg m' ma by (auto simp: update_conv')
qed

theorem generateManifestEntry_changes_only_tags_witness:
  "\<exists>r. generateManifestEntry [''a''] ''a''
          (JObj [(''name'', JStr ''A''), (''tags'', JArr [JStr ''editor'', JStr ''beta'']),
                 (''permissions'', JArr [])]) = Inr r \<and>
       manifest_after r =
         JObj [(''name'', JStr ''A''), (''tags'', JArr [JStr ''beta'', JStr ''new'']),
               (''permissions'', JArr [])] \<and>
       (\<exists>kvs kvs' tags.
           JObj [(''name'', JStr ''A''), (''tags'', JArr [JStr ''editor'', JStr ''beta'']),
                 (''permissions'', JArr [])] = JObj kvs \<and>
           manifest_after r = JObj kvs' \<and>
           map fst kvs' = map fst kvs \<and>
           (\<forall>k. k \<noteq> ''tags'' \<longrightarrow> map_of kvs' k = map_of kvs k) \<and>
           map_of kvs ''tags'' = Some (JArr tags) \<and>
           map_of kvs' ''tags'' =
             Some (JArr (filter (\<lambda>i. i \<in> set (map JStr KEEP_TAGS)) tags @
                         (if ''a'' \<in> set [''a''] then [JStr ''new''] else []))))"
proof -
  let ?m = "JObj [(''name'', JStr ''A''), (''tags'', JArr [JStr ''editor'', JStr ''beta'']),
                 (''permissions'', JArr [])]"
  have "\<exists>r. generateManifestEntry [''a''] ''a'' ?m = Inr r \<and>
       manifest_after r =
         JObj [(''name'', JStr ''A''), (''tags'', JArr [JStr ''beta'', JStr ''new'']),
               (''permissions'', JArr [])]"
    by (simp add: generateManifestEntry_def filter_tags_def trim_manifest_def clone_def
        strip_entries_def render_manifest_def wants_clipboard_def KEEP_TAGS_def AList.delete_eq)
  then obtain r where r: "generateManifestEntry [''a''] ''a'' ?m = Inr r"
    and t: "manifest_after r =
         JObj [(''name'', JStr ''A''), (''tags'', JArr [JStr ''beta'', JStr ''new'']),
               (''permissions'', JArr [])]"
    by blast
  from generateManifestEntry_changes_only_tags [OF r] show ?thesis using r t by blast
qed

subsection \<open>Locale partitioner\<close>













lemma key_ordered_tail: "key_ordered (x # ks) \<Longrightarrow> key_ordered ks"
  by (cases ks) auto





























lemma foldl_map_add_none:
  "\<forall>c \<in> set cs. c k = None \<Longrightarrow> foldl (++) M cs k = M k"
  by (induction cs arbitrary: M) (auto simp: map_add_def)

lemma foldl_map_add_last:
  "c k = Some v \<Longrightarrow> \<forall>c' \<in> set cs'. c' k = None \<Longrightarrow> foldl (++) M (cs @ c # cs') k = Some v"
  by (simp add: foldl_map_add_none)











subsection \<open>Entry-table generator\<close>

lemma generateEntries_loop_ok:
  assumes "\<forall>i\<in>set items. callback i = Inr (f i) \<and> recognized (f i)"
  shows "generateEntries_loop callback items st =
     Inr \<lparr>importSection = importSection st @ concat (import_lines f (importCount st) items),
          importCount = importCount st + length (filter (\<lambda>i. is_eager (f i)) items),
          exportSection = exportSection st @ concat (export_lines f (importCount st) items)\<rparr>"
  using assms
proof (induction items arbitrary: st)
  case Nil
  show ?case by simp
next
  case (Cons i items)
  have cb: "callback i = Inr (f i)" and rec: "recognized (f i)" using Cons.prems by auto
  have IH: "\<And>st. generateEntries_loop callback items st =
     Inr \<lparr>importSection = importSection st @ concat (import_lines f (importCount st) items),
          importCount = importCount st + length (filter (\<lambda>i. is_eager (f i)) items),
          exportSection = exportSection st @ concat (export_lines f (importCount st) items)\<rparr>"
    using Cons.IH Cons.prems by auto
  consider (li) "type (f i) = ''lazy-import''" | (lr) "type (f i) = ''lazy-require''"
    | (ei) "type (f i) = ''eager-import''"
    using rec by (auto simp: recognized_def)
  then show ?case
  proof cases
    case li
    then have e: "\<not> is_eager (f i)" by (simp add: is_eager_def)
    show ?thesis
      unfolding generateEntries_loop.simps cb sum.case li if_True IH
      using e li by (simp add: entry_line_def entry_value_def)
  next
    case lr
    then have e: "\<not> is_eager (f i)" by (simp add: is_eager_def)
    have n: "type (f i) \<noteq> ''lazy-import''" using lr by simp
    show ?thesis
      unfolding generateEntries_loop.simps cb sum.case IH
      using e lr by (simp add: entry_line_def entry_value_def)
  next
    case ei
    then have e: "is_eager (f i)" by (simp add: is_eager_def)
    show ?thesis
      unfolding generateEntries_loop.simps cb sum.case IH
      using e ei by (simp add: entry_line_def entry_value_def import_line_def)
  qed
qed

lemma generateEntries_loop_fail:
  assumes "\<forall>i\<in>set items. callback i = Inr (f i)"
    and "generateEntries_loop callback items st = Inl e"
  shows "\<exists>i\<in>set items. \<not> recognized (f i) \<and> e = Error (''Unknown type: '' @ type (f i))"
  using assms
proof (induction items arbitrary: st)
  case Nil
  then show ?case by simp
next
  case (Cons i items)
  have cb: "callback i = Inr (f i)" using Cons.prems by auto
  show ?case
  proof (cases "recognized (f i)")
    case True
    then obtain st' where "generateEntries_loop callback items st' = Inl e"
      using Cons.prems(2) cb by (auto simp: recognized_def split: if_splits)
    then show ?thesis using Cons.IH Cons.prems(1) by auto
  next
    case False
    then have "generateEntries_loop callback (i # items) st = Inl (Error (''Unknown type: '' @ type (f i)))"
      using cb by (simp add: recognized_def)
    then show ?thesis using False Cons.prems(2) by auto
  qed
qed

lemma export_lines_index:
  "export_lines f n items =
     map (\<lambda>j. entry_line (quote (items ! j)) (entry_value (n + eager_before f items j) (f (items ! j))))
       [0..<length items]"
proof (induction items arbitrary: n)
  case Nil
  show ?case by simp
next
  case (Cons i items)
  have u: "[0..<length (i # items)] = 0 # map Suc [0..<length items]"
    by (simp add: upt_conv_Cons map_Suc_upt del: upt_Suc)
  show ?case
    unfolding u export_lines.simps Cons.IH
    by (simp add: eager_before_def comp_def)
qed

lemma import_lines_index:
  "import_lines f n items =
     map (\<lambda>j. import_line (n + eager_before f items j) (src (f (items ! j))))
       [j \<leftarrow> [0..<length items]. is_eager (f (items ! j))]"
proof (induction items arbitrary: n)
  case Nil
  show ?case by simp
next
  case (Cons i items)
  have u: "[0..<length (i # items)] = 0 # map Suc [0..<length items]"
    by (simp add: upt_conv_Cons map_Suc_upt del: upt_Suc)
  show ?case
    unfolding u import_lines.simps Cons.IH
    by (simp add: eager_before_def comp_def filter_map)
qed

lemma generateEntries_ok:
  assumes "\<forall>i\<in>set items. callback i = Inr (f i) \<and> recognized (f i)"
  shows "generateEntries items callback =
     Inr (''/* generated by pull.js */\<newline>'' @ concat (import_lines f 0 items) @
          (''export default {\<newline>'' @ concat (export_lines f 0 items)) @ ''};\<newline>'')"
  unfolding generateEntries_def generateEntries_loop_ok [OF assms] by simp

lemma generateEntries_fail:
  assumes "\<forall>i\<in>set items. callback i = Inr (f i)"
    and "generateEntries items callback = Inl e"
  shows "\<exists>i\<in>set items. \<not> recognized (f i) \<and> e = Error (''Unknown type: '' @ type (f i))"
proof -
  from assms(2) have "generateEntries_loop callback items
      \<lparr>importSection = [], importCount = 0, exportSection = ''export default {\<newline>''\<rparr> = Inl e"
    by (auto simp: generateEntries_def split: sum.splits)
  from generateEntries_loop_fail [OF assms(1) this] show ?thesis .
qed


lemma generateEntries_loop_bad:
  assumes "\<forall>i\<in>set items. callback i = Inr (f i)"
    and "\<exists>i\<in>set items. \<not> recognized (f i)"
  shows "isl (generateEntries_loop callback items st)"
  using assms
proof (induction items arbitrary: st)
  case Nil
  then show ?case by simp
next
  case (Cons i items)
  have cb: "callback i = Inr (f i)" using Cons.prems by auto
  show ?case
  proof (cases "recognized (f i)")
    case True
    then have "\<exists>i\<in>set items. \<not> recognized (f i)" using Cons.prems(2) by auto
    then have "\<And>st. isl (generateEntries_loop callback items st)"
      using Cons.IH Cons.prems(1) by auto
    then show ?thesis using cb by simp
  next
    case False
    then show ?thesis using cb by (simp add: recognized_def)
  qed
qed

lemma generateEntries_bad:
  assumes "\<forall>i\<in>set items. callback i = Inr (f i)"
    and "\<exists>i\<in>set items. \<not> recognized (f i)"
  shows "isl (generateEntries items callback)"
  using generateEntries_loop_bad [OF assms,
      of "\<lparr>importSection = [], importCount = 0, exportSection = ''export default {\<newline>''\<rparr>"]
  by (auto simp: generateEntries_def split: sum.splits)

text \<open>
  Claim C5. For a callback that returns a classification for every item,
  \<open>generateEntries\<close> raises an error exactly when some item is classified with a type
  other than \<^verbatim>\<open>lazy-import\<close>, \<^verbatim>\<open>lazy-require\<close> and \<^verbatim>\<open>eager-import\<close>; the error is
  \<^verbatim>\<open>Unknown type\<close> with the offending type. When every item has a recognized type, it
  returns the generated document.
\<close>

theorem generateEntries_raises_iff:
  assumes "\<forall>i\<in>set items. callback i = Inr (f i)"
  shows "((\<exists>e. generateEntries items callback = Inl e) \<longleftrightarrow> (\<exists>i\<in>set items. \<not> recognized (f i))) \<and>
         ((\<forall>i\<in>set items. recognized (f i)) \<longrightarrow> (\<exists>doc. generateEntries items callback = Inr doc)) \<and>
         (\<forall>e. generateEntries items callback = Inl e \<longrightarrow>
            (\<exists>i\<in>set items. \<not> recognized (f i) \<and> e = Error (''Unknown type: '' @ type (f i))))"
proof -
  have a: "(\<exists>i\<in>set items. \<not> recognized (f i)) \<Longrightarrow> \<exists>e. generateEntries items callback = Inl e"
    using generateEntries_bad [OF assms] by (cases "generateEntries items callback") auto
  have b: "\<And>e. generateEntries items callback = Inl e \<Longrightarrow>
      \<exists>i\<in>set items. \<not> recognized (f i) \<and> e = Error (''Unknown type: '' @ type (f i))"
    using generateEntries_fail [OF assms] by blast
  have c: "(\<forall>i\<in>set items. recognized (f i)) \<Longrightarrow> \<exists>doc. generateEntries items callback = Inr doc"
    using generateEntries_ok [of items callback f] assms by blast
  show ?thesis using a b c by blast
qed



theorem generateEntries_raises_iff_witness:
  "\<not> recognized \<lparr>src = ''s'', name = None, type = ''eager''\<rparr> \<and>
   generateEntries [''a''] (\<lambda>i. Inr \<lparr>src = ''s'', name = None, type = ''eager''\<rparr>) =
     Inl (Error ''Unknown type: eager'')"
proof -
  let ?c = "\<lparr>src = ''s'', name = None, type = ''eager''\<rparr>"
  have h: "\<forall>i\<in>set [''a'']. (\<lambda>i. Inr ?c) i = (Inr ((\<lambda>i. ?c) i) :: js_error + classification)"
    by simp
  note t = generateEntries_raises_iff [where items = "[''a'']" and f = "\<lambda>i. ?c"
      and callback = "\<lambda>i. Inr ?c", OF h]
  have nb: "\<not> recognized ?c" by (simp add: recognized_def)
  then have "\<exists>i\<in>set [''a'']. \<not> recognized ((\<lambda>i. ?c) i)" by simp
  from t [THEN conjunct1, THEN iffD2, OF this]
  obtain e where e: "generateEntries [''a''] (\<lambda>i. Inr ?c) = Inl e" by (rule exE)
  from t [THEN conjunct2, THEN conjunct2, THEN spec, THEN mp, OF e]
  have "e = Error (''Unknown type: '' @ type ?c)" by simp
  then have "generateEntries [''a''] (\<lambda>i. Inr ?c) = Inl (Error ''Unknown type: eager'')"
    using e by simp
  then show ?thesis using nb by blast
qed


lemma recognized_of_ok:
  assumes "\<forall>i\<in>set items. callback i = Inr (f i)"
    and "generateEntries items callback = Inr doc"
  shows "\<forall>i\<in>set items. callback i = Inr (f i) \<and> recognized (f i)"
proof (rule ccontr)
  assume "\<not> (\<forall>i\<in>set items. callback i = Inr (f i) \<and> recognized (f i))"
  then have "\<exists>i\<in>set items. \<not> recognized (f i)" using assms(1) by blast
  from generateEntries_bad [OF assms(1) this] show False using assms(2) by simp
qed

text \<open>
  Claim C8 says that the keys of the generated table are unique for every item
  collection. The generator writes one entry per item and never looks for an earlier
  entry with the same key: the locale list \<^verbatim>\<open>fr\<close>, \<^verbatim>\<open>fr\<close> gives a table with the key
  \<^verbatim>\<open>"fr"\<close> twice.
\<close>

theorem generateEntries_unique_keys_counterexample:
  \<open>generateL10nSettingsEntries [''fr'', ''fr''] =
     Inr (''/* generated by pull.js */\<newline>'' @
          ''export default {\<newline>'' @
          ''  "fr": () => require("../addons-l10n-settings/fr.json"),\<newline>'' @
          ''  "fr": () => require("../addons-l10n-settings/fr.json"),\<newline>'' @
          ''};\<newline>'')\<close>
  by (simp add: generateL10nSettingsEntries_def generateEntries_def quote_def escape_char_def)

text \<open>
  Claim C8, amended. When \<open>generateEntries\<close> returns, the document is the header, one
  import line per eager item, and one table entry per item in order. The key of an
  entry is the \<^verbatim>\<open>JSON.stringify\<close> text of its item, so the keys are pairwise distinct
  exactly when the items are. The value of a \<^verbatim>\<open>lazy-import\<close> or \<^verbatim>\<open>lazy-require\<close> item is
  an arrow function without arguments around \<^verbatim>\<open>import(src)\<close> or \<^verbatim>\<open>require(src)\<close>, and no
  import line mentions its source; the value of an \<^verbatim>\<open>eager-import\<close> item is the name
  \<^verbatim>\<open>_import<n>\<close> that its import line binds to the source, \<open>n\<close> counting the eager items
  before it.
\<close>

theorem generateEntries_table:
  assumes "\<forall>i\<in>set items. callback i = Inr (f i)"
    and "generateEntries items callback = Inr doc"
  shows "doc =
           ''/* generated by pull.js */\<newline>'' @
           concat (map (\<lambda>j. import_line (eager_before f items j) (src (f (items ! j))))
                     [j \<leftarrow> [0..<length items]. is_eager (f (items ! j))]) @
           ''export default {\<newline>'' @
           concat (map (\<lambda>j. entry_line (quote (items ! j))
                                (entry_value (eager_before f items j) (f (items ! j))))
                     [0..<length items]) @
           ''};\<newline>'' \<and>
         (distinct (map quote items) \<longleftrightarrow> distinct items) \<and>
         (\<forall>i\<in>set items. recognized (f i))"
proof -
  note r = recognized_of_ok [OF assms]
  have "doc = ''/* generated by pull.js */\<newline>'' @ concat (import_lines f 0 items) @
          (''export default {\<newline>'' @ concat (export_lines f 0 items)) @ ''};\<newline>''"
    using generateEntries_ok [OF r] assms(2) by simp
  then have d: "doc =
           ''/* generated by pull.js */\<newline>'' @
           concat (map (\<lambda>j. import_line (eager_before f items j) (src (f (items ! j))))
                     [j \<leftarrow> [0..<length items]. is_eager (f (items ! j))]) @
           ''export default {\<newline>'' @
           concat (map (\<lambda>j. entry_line (quote (items ! j))
                                (entry_value (eager_before f items j) (f (items ! j))))
                     [0..<length items]) @
           ''};\<newline>''"
    unfolding export_lines_index import_lines_index by simp
  have k: "distinct (map quote items) \<longleftrightarrow> distinct items"
    by (simp add: distinct_map inj_on_def quote_inj)
  show ?thesis using d k r by blast
qed


theorem generateEntries_table_witness:
  "\<exists>doc. generateEntries [''a'', ''b'']
            (\<lambda>i. Inr \<lparr>src = ''./'' @ i, name = None,
                        type = (if i = ''a'' then ''eager-import'' else ''lazy-require'')\<rparr>) = Inr doc \<and>
         doc =
           ''/* generated by pull.js */\<newline>'' @
           concat (map (\<lambda>j. import_line
                               (eager_before (\<lambda>i. \<lparr>src = ''./'' @ i, name = None,
                                  type = (if i = ''a'' then ''eager-import'' else ''lazy-require'')\<rparr>)
                                  [''a'', ''b''] j)
                               (src \<lparr>src = ''./'' @ [''a'', ''b''] ! j, name = None,
                                  type = (if [''a'', ''b''] ! j = ''a'' then ''eager-import''
                                          else ''lazy-require'')\<rparr>))
                     [j \<leftarrow> [0..<length [''a'', ''b'']].
                        is_eager \<lparr>src = ''./'' @ [''a'', ''b''] ! j, name = None,
                                  type = (if [''a'', ''b''] ! j = ''a'' then ''eager-import''
                                          else ''lazy-require'')\<rparr>]) @
           ''export default {\<newline>'' @
           concat (map (\<lambda>j. entry_line (quote ([''a'', ''b''] ! j))
                                (entry_value
                                   (eager_before (\<lambda>i. \<lparr>src = ''./'' @ i, name = None,
                                      type = (if i = ''a'' then ''eager-import'' else ''lazy-require'')\<rparr>)
                                      [''a'', ''b''] j)
                                   \<lparr>src = ''./'' @ [''a'', ''b''] ! j, name = None,
                                     type = (if [''a'', ''b''] ! j = ''a'' then ''eager-import''
                                             else ''lazy-require'')\<rparr>))
                     [0..<length [''a'', ''b'']]) @
           ''};\<newline>'' \<and>
         distinct (map quote [''a'', ''b'']) \<and> distinct [''a'', ''b'']"
proof -
  let ?f = "\<lambda>i. \<lparr>src = ''./'' @ i, name = None,
                        type = (if i = ''a'' then ''eager-import'' else ''lazy-require'')\<rparr>"
  have h: "\<forall>i\<in>set [''a'', ''b'']. (\<lambda>i. Inr (?f i)) i = (Inr (?f i) :: js_error + classification)"
    by simp
  have "\<forall>i\<in>set [''a'', ''b'']. (\<lambda>i. Inr (?f i)) i = (Inr (?f i) :: js_error + classification)
          \<and> recognized (?f i)"
    by (simp add: recognized_def)
  from generateEntries_ok [OF this]
  obtain doc where doc: "generateEntries [''a'', ''b''] (\<lambda>i. Inr (?f i)) = Inr doc" by blast
  note t = generateEntries_table [where items = "[''a'', ''b'']" and f = ?f
      and callback = "\<lambda>i. Inr (?f i)", OF h doc]
  have d: "distinct [''a'', ''b'']" by simp
  then have dq: "distinct (map quote [''a'', ''b''])"
    using t [THEN conjunct2, THEN conjunct1] by (rule iffD2 [rotated])
  show ?thesis
    using doc t [THEN conjunct1] d dq by (intro exI [of _ doc] conjI)
qed

lemma export_lines_lazy:
  "\<forall>i\<in>set items. \<not> is_eager (f i) \<Longrightarrow>
   export_lines f n items = map (\<lambda>i. entry_line (quote i) (entry_value n (f i))) items"
  by (induction items) simp_all

lemma import_lines_lazy:
  "\<forall>i\<in>set items. \<not> is_eager (f i) \<Longrightarrow> import_lines f n items = []"
  by (induction items) simp_all

lemma get_prop_not_null: "v \<noteq> JNull \<Longrightarrow> \<exists>p. get_prop v k = Inr p"
  by (cases v) simp_all

lemma runtime_callback_class:
  assumes "addonIdToManifest a = Some (m a)" and "m a \<noteq> JNull"
  shows "runtime_callback addonIdToManifest a = Inr (runtime_class m a)"
proof -
  obtain p where p: "get_prop (m a) ''enabledByDefault'' = Inr p"
    using get_prop_not_null [OF assms(2)] by blast
  obtain q where q: "get_prop (m a) ''editorOnly'' = Inr q"
    using get_prop_not_null [OF assms(2)] by blast
  show ?thesis
    by (simp add: runtime_callback_def runtime_class_def flag_def assms(1) p q)
qed

lemma runtime_class_line:
  "entry_line (quote a) (entry_value n (runtime_class m a)) = spec_runtime_line a (m a)"
  by (simp add: entry_line_def entry_value_def runtime_class_def spec_runtime_line_def)


lemma runtime_class_recognized: "recognized (runtime_class m a) \<and> \<not> is_eager (runtime_class m a)"
  by (simp add: recognized_def is_eager_def runtime_class_def)

text \<open>
  Claim C2. When every addon of the list has a manifest in the table, the addon-runtime
  table has one entry per addon, in order. An addon whose manifest has
  \<^verbatim>\<open>enabledByDefault\<close> true and \<^verbatim>\<open>editorOnly\<close> false is classified \<^verbatim>\<open>lazy-require\<close> and its
  entry is a synchronous \<^verbatim>\<open>require\<close> with no chunk name; every other addon is classified
  \<^verbatim>\<open>lazy-import\<close> with the chunk name \<^verbatim>\<open>addon-default-entry\<close> when \<^verbatim>\<open>enabledByDefault\<close> is
  true and \<^verbatim>\<open>addon-entry-<id>\<close> otherwise. The flags are read as the code tests them:
  a boolean flag has its value and a missing flag is false.
\<close>

theorem generateRuntimeEntries_table:
  assumes "\<forall>a\<in>set addons. addonIdToManifest a = Some (m a) \<and> m a \<noteq> JNull"
  shows "generateRuntimeEntries addons addonIdToManifest =
           Inr (''/* generated by pull.js */\<newline>'' @ ''export default {\<newline>'' @
                concat (map (\<lambda>a. spec_runtime_line a (m a)) addons) @ ''};\<newline>'') \<and>
         (\<forall>a\<in>set addons. \<exists>c.
            runtime_callback addonIdToManifest a = Inr c \<and>
            (type c = ''lazy-require'' \<longleftrightarrow>
               flag (m a) ''enabledByDefault'' \<and> \<not> flag (m a) ''editorOnly'') \<and>
            (type c \<noteq> ''lazy-require'' \<longrightarrow>
               type c = ''lazy-import'' \<and>
               name c = Some (if flag (m a) ''enabledByDefault'' then ''addon-default-entry''
                              else ''addon-entry-'' @ a))) \<and>
         (\<forall>v k b. get_prop v k = Inr (Some (JBool b)) \<longrightarrow> flag v k = b) \<and>
         (\<forall>v k. get_prop v k = Inr None \<longrightarrow> \<not> flag v k)"
proof -
  have cb: "\<forall>a\<in>set addons. runtime_callback addonIdToManifest a = Inr (runtime_class m a) \<and>
      recognized (runtime_class m a)"
    using assms runtime_callback_class runtime_class_recognized by blast
  have lazy: "\<forall>a\<in>set addons. \<not> is_eager (runtime_class m a)"
    using runtime_class_recognized by blast
  have doc: "generateRuntimeEntries addons addonIdToManifest =
           Inr (''/* generated by pull.js */\<newline>'' @ ''export default {\<newline>'' @
                concat (map (\<lambda>a. spec_runtime_line a (m a)) addons) @ ''};\<newline>'')"
    unfolding generateRuntimeEntries_def generateEntries_ok [OF cb]
      import_lines_lazy [OF lazy] export_lines_lazy [OF lazy] runtime_class_line
    by simp
  have cls: "\<forall>a\<in>set addons. \<exists>c.
            runtime_callback addonIdToManifest a = Inr c \<and>
            (type c = ''lazy-require'' \<longleftrightarrow>
               flag (m a) ''enabledByDefault'' \<and> \<not> flag (m a) ''editorOnly'') \<and>
            (type c \<noteq> ''lazy-require'' \<longrightarrow>
               type c = ''lazy-import'' \<and>
               name c = Some (if flag (m a) ''enabledByDefault'' then ''addon-default-entry''
                              else ''addon-entry-'' @ a))"
  proof
    fix a assume "a \<in> set addons"
    then have "runtime_callback addonIdToManifest a = Inr (runtime_class m a)" using cb by blast
    moreover have "(type (runtime_class m a) = ''lazy-require'' \<longleftrightarrow>
               flag (m a) ''enabledByDefault'' \<and> \<not> flag (m a) ''editorOnly'') \<and>
            (type (runtime_class m a) \<noteq> ''lazy-require'' \<longrightarrow>
               type (runtime_class m a) = ''lazy-import'' \<and>
               name (runtime_class m a) =
                 Some (if flag (m a) ''enabledByDefault'' then ''addon-default-entry''
                       else ''addon-entry-'' @ a))"
      by (simp add: runtime_class_def)
    ultimately show "\<exists>c.
            runtime_callback addonIdToManifest a = Inr c \<and>
            (type c = ''lazy-require'' \<longleftrightarrow>
               flag (m a) ''enabledByDefault'' \<and> \<not> flag (m a) ''editorOnly'') \<and>
            (type c \<noteq> ''lazy-require'' \<longrightarrow>
               type c = ''lazy-import'' \<and>
               name c = Some (if flag (m a) ''enabledByDefault'' then ''addon-default-entry''
                              else ''addon-entry-'' @ a))"
      by (intro exI [of _ "runtime_class m a"]) (rule conjI)
  qed
  have fl: "(\<forall>v k b. get_prop v k = Inr (Some (JBool b)) \<longrightarrow> flag v k = b) \<and>
         (\<forall>v k. get_prop v k = Inr None \<longrightarrow> \<not> flag v k)"
    by (simp add: flag_def)
  show ?thesis using doc cls fl by (intro conjI) (rule doc, rule cls, simp_all add: fl)
qed

theorem generateRuntimeEntries_table_witness:
  \<open>generateRuntimeEntries [''a'', ''b'', ''c'']
     (\<lambda>x. if x = ''a'' then Some (JObj [(''enabledByDefault'', JBool True)])
          else if x = ''b'' then Some (JObj [(''enabledByDefault'', JBool True), (''editorOnly'', JBool True)])
          else Some (JObj [(''editorOnly'', JBool False)])) =
     Inr (''/* generated by pull.js */\<newline>'' @
          ''export default {\<newline>'' @
          ''  "a": () => require("../addons/a/_runtime_entry.js"),\<newline>'' @
          ''  "b": () => import(/* webpackChunkName: "addon-default-entry" */ "../addons/b/_runtime_entry.js"),\<newline>'' @
          ''  "c": () => import(/* webpackChunkName: "addon-entry-c" */ "../addons/c/_runtime_entry.js"),\<newline>'' @
          ''};\<newline>'')\<close>
proof -
  let ?m = "\<lambda>x. if x = ''a'' then JObj [(''enabledByDefault'', JBool True)]
          else if x = ''b'' then JObj [(''enabledByDefault'', JBool True), (''editorOnly'', JBool True)]
          else JObj [(''editorOnly'', JBool False)]"
  let ?t = "\<lambda>x. if x = ''a'' then Some (JObj [(''enabledByDefault'', JBool True)])
          else if x = ''b'' then Some (JObj [(''enabledByDefault'', JBool True), (''editorOnly'', JBool True)])
          else Some (JObj [(''editorOnly'', JBool False)])"
  have h: "\<forall>a\<in>set [''a'', ''b'', ''c'']. ?t a = Some (?m a) \<and> ?m a \<noteq> JNull" by simp
  note t = generateRuntimeEntries_table [where addons = "[''a'', ''b'', ''c'']"
      and addonIdToManifest = ?t and m = ?m, OF h, THEN conjunct1]
  show ?thesis
    unfolding t by (simp add: spec_runtime_line_def flag_def quote_def escape_char_def)
qed

end
